theory Spec2Isabelle
  imports Main "HOL-Library.Multiset" "HOL-Library.AList"
begin

section \<open>Configuration (config.py)\<close>

definition MODELS_FOR_ROUTING :: "string list" where
  "MODELS_FOR_ROUTING = [''openrouter/auto'']"

definition OUTPUT_FILE_NAME :: string where
  "OUTPUT_FILE_NAME = ''questions_benchmark_results.json''"

definition CONCURRENT_REQUESTS :: nat where
  "CONCURRENT_REQUESTS = 5"

section \<open>The remote completion client (router.py)\<close>

text \<open>
  The response object of the chat-completion call, as far as \<open>get_completion\<close> reads it:
  \<open>completion.model\<close> and, for every choice, \<open>choice.message.content\<close> (which the
  remote service may leave unset, hence an option).
\<close>

record completion =
  model :: string
  choices :: "string option list"

text \<open>
  What one call of \<open>self.client.chat.completions.create\<close> does: it returns a response or
  raises. The exception classes are those the \<open>except\<close> clauses of \<open>get_completion\<close>
  tell apart; \<open>UnexpectedError\<close> stands for every other subclass of \<open>Exception\<close>.
  Signals outside the \<open>Exception\<close> hierarchy (interrupts, task cancellation) end the
  process and are not part of the model.
\<close>

datatype api_outcome =
    Completion completion
  | RateLimitError
  | APIConnectionError
  | APIStatusError
  | UnexpectedError

text \<open>
  The remote service: the outcome of the call with the given routing target and prompt, at
  the given attempt (counted from 0 as \<open>range(retries)\<close> does).
\<close>

type_synonym remote = "string \<Rightarrow> string \<Rightarrow> nat \<Rightarrow> api_outcome"

text \<open>
  What a call of \<open>get_completion\<close> leaves behind: the returned pair, the number of calls of
  the remote service it made, and the arguments of its \<open>asyncio.sleep\<close> calls in order.
\<close>

record gc_return =
  gc_result :: "string option \<times> string option"
  gc_attempts :: nat
  gc_sleeps :: "int list"

definition py_range :: "int \<Rightarrow> nat list" where
  "py_range n = [0..<nat n]"

text \<open>
  The body of \<open>for attempt in range(retries)\<close>. A response with no choice makes
  \<open>completion.choices[0]\<close> raise \<open>IndexError\<close> inside the \<open>try\<close>, which the last
  \<open>except Exception\<close> clause catches: the loop is left and \<open>(None, None)\<close> returned.
\<close>

fun retry_loop :: "(nat \<Rightarrow> api_outcome) \<Rightarrow> nat list \<Rightarrow> int \<Rightarrow> nat \<Rightarrow> int list \<Rightarrow> gc_return" where
  "retry_loop create [] delay made slept =
     \<lparr>gc_result = (None, None), gc_attempts = made, gc_sleeps = slept\<rparr>"
| "retry_loop create (attempt # rest) delay made slept =
     (case create attempt of
        Completion c \<Rightarrow>
          (case choices c of
             [] \<Rightarrow> \<lparr>gc_result = (None, None), gc_attempts = Suc made, gc_sleeps = slept\<rparr>
           | content # _ \<Rightarrow>
               \<lparr>gc_result = (Some (model c), content), gc_attempts = Suc made, gc_sleeps = slept\<rparr>)
      | RateLimitError \<Rightarrow> retry_loop create rest (delay * 2) (Suc made) (slept @ [delay])
      | APIConnectionError \<Rightarrow> retry_loop create rest (delay * 2) (Suc made) (slept @ [delay])
      | APIStatusError \<Rightarrow> retry_loop create rest (delay * 2) (Suc made) (slept @ [delay])
      | UnexpectedError \<Rightarrow>
          \<lparr>gc_result = (None, None), gc_attempts = Suc made, gc_sleeps = slept\<rparr>)"

text \<open>\<open>MODELS_FOR_ROUTING[0]\<close>; the configured list is a non-empty constant.\<close>

definition auto_router_model :: string where
  "auto_router_model = MODELS_FOR_ROUTING ! 0"

definition get_completion :: "remote \<Rightarrow> string \<Rightarrow> int \<Rightarrow> int \<Rightarrow> gc_return" where
  "get_completion rem prompt retries delay =
     retry_loop (rem auto_router_model prompt) (py_range retries) delay 0 []"

section \<open>The orchestrator (main.py)\<close>

text \<open>
  A question record of the input file, typed as the data model has it: an integer id and
  two strings. \<open>process_question\<close> reads the three keys and nothing else.
\<close>

record question =
  q_id :: int
  q_difficulty :: string
  q_question :: string

record result_entry =
  r_id :: int
  r_difficulty :: string
  r_question :: string
  r_model_used :: string
  r_answer :: string

text \<open>
  The \<open>summary\<close> dictionary of \<open>main\<close>, one field for each key of the dictionary literal.
  \<open>model_usage\<close> is a Python dict: an association list in insertion order.
\<close>

record summary =
  timestamp :: string
  total_questions :: nat
  models_configured_for_routing :: "string list"
  model_usage :: "(string \<times> nat) list"
  failed_questions :: "int list"
  routing_insights :: string

definition ROUTING_INSIGHTS :: string where
  "ROUTING_INSIGHTS = ''OpenRouter's model routing dynamically selects the best model from the configured list based on factors like availability, performance, and cost. The primary model is attempted first, with others serving as fallbacks or chosen by OpenRouter's internal logic if 'route: fallback' was used (though here we're explicitly listing fallbacks). The 'model_used' field in each result indicates which model ultimately provided the answer.''"

text \<open>Python's truth value of a \<open>str | None\<close>: \<open>None\<close> and the empty string are false.\<close>

definition truthy :: "string option \<Rightarrow> bool" where
  "truthy v = (case v of None \<Rightarrow> False | Some s \<Rightarrow> s \<noteq> [])"

text \<open>\<open>d.get(k, default)\<close> and \<open>d[k] = v\<close> on a dict kept as an association list.\<close>

definition dict_get :: "('k \<times> 'v) list \<Rightarrow> 'k \<Rightarrow> 'v \<Rightarrow> 'v" where
  "dict_get d k dflt = (case map_of d k of None \<Rightarrow> dflt | Some v \<Rightarrow> v)"

definition dict_set :: "('k \<times> 'v) list \<Rightarrow> 'k \<Rightarrow> 'v \<Rightarrow> ('k \<times> 'v) list" where
  "dict_set d k v = AList.update k v d"

text \<open>
  \<open>process_question\<close>, from the call of \<open>get_completion\<close> (with its default \<open>retries = 3\<close>
  and \<open>delay = 2\<close>) to the end: the shared \<open>results\<close> list and \<open>summary_data\<close> dictionary
  go in and come out updated. In the first branch both returned values are true, so
  neither is \<open>None\<close>.
\<close>

definition process_question ::
  "remote \<Rightarrow> question \<Rightarrow> result_entry list \<times> summary \<Rightarrow> result_entry list \<times> summary" where
  "process_question client question_data shared =
     (let results = fst shared;
          summary_data = snd shared;
          question_id = q_id question_data;
          difficulty = q_difficulty question_data;
          question_text = q_question question_data;
          (model_used, answer) = gc_result (get_completion client question_text 3 2)
      in if truthy model_used \<and> truthy answer then
           (results @ [\<lparr>r_id = question_id, r_difficulty = difficulty, r_question = question_text,
                         r_model_used = the model_used, r_answer = the answer\<rparr>],
            summary_data\<lparr>model_usage :=
              dict_set (model_usage summary_data) (the model_used)
                (dict_get (model_usage summary_data) (the model_used) 0 + 1)\<rparr>)
         else
           (results,
            summary_data\<lparr>failed_questions := failed_questions summary_data @ [question_id]\<rparr>))"

subsection \<open>The bounded dispatcher\<close>

text \<open>
  \<open>asyncio.gather\<close> runs one task \<open>semaphored_process_question(q)\<close> for each question on a
  single event loop. A task is suspended only while it waits for the semaphore and, inside
  \<open>get_completion\<close>, for the network and for its sleeps; what it does to the shared
  \<open>results\<close> and \<open>summary\<close> happens after its last suspension, in one piece. So a task goes
  through three states and takes two steps:
  \<^item> \<open>Acquire i\<close>: task \<open>i\<close> enters \<open>async with semaphore\<close>, possible only while the
    semaphore's value is positive, and calls \<open>process_question\<close>;
  \<^item> \<open>Complete i\<close>: its \<open>get_completion\<close> has returned; the task updates the shared
    structures, leaves the \<open>async with\<close> block and so releases the semaphore.
  Which enabled step comes next is the event loop's choice: a schedule is a list of events.
  The model lets any waiting task acquire a free semaphore; asyncio wakes waiting tasks in
  their order of arrival, so its schedules are among those of the model.
  \<open>invoked\<close> logs the calls of \<open>process_question\<close> by task index and \<open>remote_calls\<close>
  counts the requests sent to the remote service.
\<close>

datatype task_status = Waiting | Running | Finished

datatype event = Acquire nat | Complete nat

record disp_state =
  status :: "task_status list"
  sem_value :: nat
  benchmark_results :: "result_entry list"
  summary_data :: summary
  invoked :: "nat list"
  remote_calls :: nat

definition init_state :: "nat \<Rightarrow> string \<Rightarrow> question list \<Rightarrow> disp_state" where
  "init_state limit now questions =
     \<lparr>status = replicate (length questions) Waiting,
      sem_value = limit,
      benchmark_results = [],
      summary_data =
        \<lparr>timestamp = now,
         total_questions = length questions,
         models_configured_for_routing = MODELS_FOR_ROUTING,
         model_usage = [],
         failed_questions = [],
         routing_insights = ROUTING_INSIGHTS\<rparr>,
      invoked = [],
      remote_calls = 0\<rparr>"

fun step :: "question list \<Rightarrow> (nat \<Rightarrow> remote) \<Rightarrow> event \<Rightarrow> disp_state \<Rightarrow> disp_state option" where
  "step questions clients (Acquire i) s =
     (if i < length (status s) \<and> status s ! i = Waiting \<and> 0 < sem_value s
      then Some (s\<lparr>status := (status s)[i := Running],
                   sem_value := sem_value s - 1,
                   invoked := invoked s @ [i]\<rparr>)
      else None)"
| "step questions clients (Complete i) s =
     (if i < length (status s) \<and> i < length questions \<and> status s ! i = Running
      then
        let shared = process_question (clients i) (questions ! i)
                       (benchmark_results s, summary_data s)
        in Some (s\<lparr>status := (status s)[i := Finished],
                    sem_value := sem_value s + 1,
                    benchmark_results := fst shared,
                    summary_data := snd shared,
                    remote_calls := remote_calls s +
                      gc_attempts (get_completion (clients i) (q_question (questions ! i)) 3 2)\<rparr>)
      else None)"

text \<open>Running a schedule; \<open>None\<close> when it asks for a step that is not enabled.\<close>

fun exec :: "question list \<Rightarrow> (nat \<Rightarrow> remote) \<Rightarrow> event list \<Rightarrow> disp_state \<Rightarrow> disp_state option" where
  "exec questions clients [] s = Some s"
| "exec questions clients (e # es) s =
     (case step questions clients e s of
        None \<Rightarrow> None
      | Some s' \<Rightarrow> exec questions clients es s')"

definition in_flight :: "disp_state \<Rightarrow> nat" where
  "in_flight s = count_list (status s) Running"

definition all_finished :: "disp_state \<Rightarrow> bool" where
  "all_finished s = list_all (\<lambda>t. t = Finished) (status s)"

subsection \<open>The run\<close>

record report =
  results :: "result_entry list"
  summary :: summary

text \<open>
  What reading \<open>questions-benchmark.json\<close> does, as far as \<open>main\<close> handles it: the two
  exceptions it catches, or the parsed list of questions. Any other failure of \<open>open\<close> or
  \<open>json.load\<close> leaves \<open>main\<close> as an uncaught exception and is not part of the model.
\<close>

datatype file_read = FileNotFoundError | JSONDecodeError | Loaded "question list"

text \<open>
  What a run leaves behind: the report written to \<open>OUTPUT_FILE_NAME\<close> if any, the calls of
  \<open>process_question\<close>, and the number of requests sent to the remote service.
\<close>

record run_effects =
  output_file :: "report option"
  handler_calls :: "nat list"
  remote_requests :: nat

definition no_effects :: run_effects where
  "no_effects = \<lparr>output_file = None, handler_calls = [], remote_requests = 0\<rparr>"

text \<open>\<open>benchmark_results.sort(key=lambda x: x.get("id", 0))\<close> and the final dictionary.\<close>

definition final_output :: "disp_state \<Rightarrow> report" where
  "final_output s =
     \<lparr>results = sort_key r_id (benchmark_results s), summary = summary_data s\<rparr>"

text \<open>
  \<open>main\<close>. Its surroundings are arguments: the value of \<open>os.getenv("OPEN_ROUTER_API_KEY")\<close>,
  the outcome of reading the question file, the clock, the remote service as each task
  meets it, the schedule the event loop follows, and whether writing the output file
  succeeds (an \<open>IOError\<close> is caught and logged). \<open>asyncio.gather\<close> returns when every task
  has finished, so a schedule that is not enabled throughout or leaves a task unfinished is
  not a run: \<open>None\<close>.
\<close>

definition main ::
  "string option \<Rightarrow> file_read \<Rightarrow> string \<Rightarrow> (nat \<Rightarrow> remote) \<Rightarrow> event list \<Rightarrow> bool \<Rightarrow> run_effects option" where
  "main api_key file now clients schedule write_ok =
     (if \<not> truthy api_key then Some no_effects
      else case file of
        FileNotFoundError \<Rightarrow> Some no_effects
      | JSONDecodeError \<Rightarrow> Some no_effects
      | Loaded questions \<Rightarrow>
          (case exec questions clients schedule (init_state CONCURRENT_REQUESTS now questions) of
             None \<Rightarrow> None
           | Some s \<Rightarrow>
               if all_finished s
               then Some \<lparr>output_file = (if write_ok then Some (final_output s) else None),
                          handler_calls = invoked s,
                          remote_requests = remote_calls s\<rparr>
               else None))"

text \<open>
  \<open>json.dump\<close> of the summary: the keys of the written object with their values, in the
  order of the dictionary.
\<close>

datatype json = JString string | JNumber int | JArray "json list" | JObject "(string \<times> json) list"

definition summary_json :: "summary \<Rightarrow> (string \<times> json) list" where
  "summary_json sm =
     [(''timestamp'', JString (timestamp sm)),
      (''total_questions'', JNumber (int (total_questions sm))),
      (''models_configured_for_routing'', JArray (map JString (models_configured_for_routing sm))),
      (''model_usage'', JObject (map (\<lambda>(m, n). (m, JNumber (int n))) (model_usage sm))),
      (''failed_questions'', JArray (map JNumber (failed_questions sm))),
      (''routing_insights'', JString (routing_insights sm))]"

text \<open>The sequential schedule: each task in turn acquires the semaphore and completes.\<close>

definition sequential :: "nat \<Rightarrow> event list" where
  "sequential n = concat (map (\<lambda>i. [Acquire i, Complete i]) [0..<n])"

subsection \<open>Invariants of the dispatcher\<close>

text \<open>
  Predicates on dispatcher states used in the proofs below: the ids recorded so far are
  those of the finished tasks; \<open>process_question\<close> has been called once for every task
  that is no longer waiting; \<open>model_usage\<close> counts the results by model; the fields of the
  summary that no task writes keep their initial values.
\<close>

definition usage_counts :: "result_entry list \<Rightarrow> (string \<times> nat) list \<Rightarrow> bool" where
  "usage_counts res usage \<longleftrightarrow>
     distinct (map fst usage) \<and>
     (\<forall>m. map_of usage m =
        (if m \<in> r_model_used ` set res
         then Some (length (filter (\<lambda>r. r_model_used r = m) res)) else None))"

definition ids_accounted :: "question list \<Rightarrow> disp_state \<Rightarrow> bool" where
  "ids_accounted qs s \<longleftrightarrow>
     length (status s) = length qs \<and>
     mset (map r_id (benchmark_results s)) + mset (failed_questions (summary_data s)) =
       image_mset (\<lambda>i. q_id (qs ! i)) (mset_set {i. i < length (status s) \<and> status s ! i = Finished})"

definition invoked_once :: "disp_state \<Rightarrow> bool" where
  "invoked_once s \<longleftrightarrow>
     mset (invoked s) = mset_set {i. i < length (status s) \<and> status s ! i \<noteq> Waiting}"

definition static_fields :: "string \<Rightarrow> question list \<Rightarrow> summary \<Rightarrow> bool" where
  "static_fields now qs sm \<longleftrightarrow>
     timestamp sm = now \<and> total_questions sm = length qs \<and>
     models_configured_for_routing sm = MODELS_FOR_ROUTING \<and>
     routing_insights sm = ROUTING_INSIGHTS"

text \<open>
  The number of steps a state is away from the end of the run: two for every waiting task
  and one for every task in flight.
\<close>

definition remaining :: "disp_state \<Rightarrow> nat" where
  "remaining s = 2 * count_list (status s) Waiting + count_list (status s) Running"

subsection \<open>A sample run\<close>

text \<open>
  Three questions with ids 1, 2, 3; the remote service answers the first and the third
  with model \<open>m1\<close> and rate-limits every attempt for the second. The schedule lets the
  third question finish first.
\<close>

definition example_questions :: "question list" where
  "example_questions =
     [\<lparr>q_id = 1, q_difficulty = ''easy'', q_question = ''What is 2+2?''\<rparr>,
      \<lparr>q_id = 2, q_difficulty = ''medium'', q_question = ''Name a prime.''\<rparr>,
      \<lparr>q_id = 3, q_difficulty = ''hard'', q_question = ''Why?''\<rparr>]"

definition example_clients :: "nat \<Rightarrow> remote" where
  "example_clients i =
     (\<lambda>target prompt attempt.
        if i = 1 then RateLimitError
        else Completion \<lparr>model = ''m1'', choices = [Some ''ok'']\<rparr>)"

definition example_schedule :: "event list" where
  "example_schedule = [Acquire 2, Acquire 0, Complete 2, Acquire 1, Complete 1, Complete 0]"

definition example_report :: report where
  "example_report =
     \<lparr>results =
        [\<lparr>r_id = 1, r_difficulty = ''easy'', r_question = ''What is 2+2?'',
          r_model_used = ''m1'', r_answer = ''ok''\<rparr>,
         \<lparr>r_id = 3, r_difficulty = ''hard'', r_question = ''Why?'',
          r_model_used = ''m1'', r_answer = ''ok''\<rparr>],
      summary =
        \<lparr>timestamp = ''2025-06-01T12:00:00'',
         total_questions = 3,
         models_configured_for_routing = [''openrouter/auto''],
         model_usage = [(''m1'', 2)],
         failed_questions = [2],
         routing_insights = ROUTING_INSIGHTS\<rparr>\<rparr>"

section \<open>Properties of the client\<close>

lemma py_range_3: "py_range 3 = [0, 1, 2]"
  by (simp add: py_range_def upt_rec)

lemma auto_router_model_eq: "auto_router_model = ''openrouter/auto''"
  by (simp add: auto_router_model_def MODELS_FOR_ROUTING_def)

lemma retry_loop_all_rate_limited:
  "\<forall>a \<in> set as. create a = RateLimitError \<Longrightarrow>
   gc_result (retry_loop create as delay made slept) = (None, None) \<and>
   gc_attempts (retry_loop create as delay made slept) = made + length as"
  by (induction as arbitrary: delay made slept) simp_all

text \<open>
  C2. A client whose every attempt fails with a rate-limit error, called with
  \<open>retries = 3\<close>: \<open>get_completion\<close> returns \<open>(None, None)\<close> and has called the remote
  service exactly 3 times, for every prompt and every initial delay.
\<close>

theorem get_completion_exhaustion:
  assumes "\<forall>attempt < 3. rem auto_router_model prompt attempt = RateLimitError"
  shows "gc_result (get_completion rem prompt 3 delay) = (None, None) \<and>
         gc_attempts (get_completion rem prompt 3 delay) = 3"
proof -
  have "\<forall>a \<in> set (py_range 3). rem auto_router_model prompt a = RateLimitError"
    using assms by (simp add: py_range_def)
  from retry_loop_all_rate_limited [OF this, of delay 0 "[]"]
  show ?thesis by (simp add: get_completion_def py_range_def)
qed

theorem get_completion_exhaustion_witness:
  "(\<lambda>m p a. RateLimitError) auto_router_model ''What is 2+2?'' (2::nat) = RateLimitError \<and>
   gc_result (get_completion (\<lambda>m p a. RateLimitError) ''What is 2+2?'' 3 2) = (None, None) \<and>
   gc_attempts (get_completion (\<lambda>m p a. RateLimitError) ''What is 2+2?'' 3 2) = 3"
  using get_completion_exhaustion [of "\<lambda>m p a. RateLimitError" "''What is 2+2?''" 2] by simp

text \<open>
  C3. With \<open>retries = 3\<close> and \<open>delay = 2\<close>, rate-limit errors on attempts 1 and 2 and a
  response on attempt 3 (one that has a first choice): \<open>get_completion\<close> returns the model
  name of the response and the text of its first choice, after 3 calls; it has slept 2 and
  then 4 seconds, the delay doubling after each rate-limited attempt, 6 seconds in all.
\<close>

theorem get_completion_retry_policy:
  assumes "rem auto_router_model prompt 0 = RateLimitError"
    and "rem auto_router_model prompt 1 = RateLimitError"
    and "rem auto_router_model prompt 2 = Completion c"
    and "choices c = content # others"
  shows "gc_result (get_completion rem prompt 3 2) = (Some (model c), content) \<and>
         gc_attempts (get_completion rem prompt 3 2) = 3 \<and>
         gc_sleeps (get_completion rem prompt 3 2) = [2, 2 * 2] \<and>
         sum_list (gc_sleeps (get_completion rem prompt 3 2)) \<ge> 2 + 4"
  using assms by (simp add: get_completion_def py_range_3)

theorem get_completion_retry_policy_witness:
  "(let rem = (\<lambda>m p a. if a < 2 then RateLimitError
                        else Completion \<lparr>model = ''m1'', choices = [Some ''4'']\<rparr>)
    in rem auto_router_model ''What is 2+2?'' 0 = RateLimitError \<and>
       rem auto_router_model ''What is 2+2?'' 1 = RateLimitError \<and>
       rem auto_router_model ''What is 2+2?'' 2 = Completion \<lparr>model = ''m1'', choices = [Some ''4'']\<rparr> \<and>
       gc_result (get_completion rem ''What is 2+2?'' 3 2) = (Some ''m1'', Some ''4'') \<and>
       gc_sleeps (get_completion rem ''What is 2+2?'' 3 2) = [2, 4])"
  using get_completion_retry_policy
    [of "\<lambda>m p a. if a < 2 then RateLimitError
                  else Completion \<lparr>model = ''m1'', choices = [Some ''4'']\<rparr>"
        "''What is 2+2?''" "\<lparr>model = ''m1'', choices = [Some ''4'']\<rparr>" "Some ''4''" "[]"]
  by (simp add: Let_def)

text \<open>
  C4. An error of any other class on the first attempt: \<open>get_completion\<close> does not retry.
  It returns \<open>(None, None)\<close> after exactly 1 call of the remote service and without a
  single sleep, whatever the number of attempts allowed (at least one) and the delay.
\<close>

theorem get_completion_non_retryable:
  assumes "1 \<le> retries"
    and "rem auto_router_model prompt 0 = UnexpectedError"
  shows "gc_result (get_completion rem prompt retries delay) = (None, None) \<and>
         gc_attempts (get_completion rem prompt retries delay) = 1 \<and>
         gc_sleeps (get_completion rem prompt retries delay) = []"
proof -
  from assms(1) have "py_range retries = 0 # [1..<nat retries]"
    by (simp add: py_range_def upt_rec)
  with assms(2) show ?thesis
    by (simp add: get_completion_def)
qed

theorem get_completion_non_retryable_witness:
  "(1::int) \<le> 3 \<and>
   (\<lambda>m p a. UnexpectedError) auto_router_model ''What is 2+2?'' 0 = UnexpectedError \<and>
   gc_result (get_completion (\<lambda>m p a. UnexpectedError) ''What is 2+2?'' 3 2) = (None, None) \<and>
   gc_attempts (get_completion (\<lambda>m p a. UnexpectedError) ''What is 2+2?'' 3 2) = 1 \<and>
   gc_sleeps (get_completion (\<lambda>m p a. UnexpectedError) ''What is 2+2?'' 3 2) = []"
  using get_completion_non_retryable [of 3 "\<lambda>m p a. UnexpectedError" "''What is 2+2?''" 2]
  by simp

section \<open>Properties of the orchestrator\<close>

lemma exec_invariant:
  assumes "exec qs cl sched s = Some s'" and "P s"
    and "\<And>e t t'. P t \<Longrightarrow> step qs cl e t = Some t' \<Longrightarrow> P t'"
  shows "P s'"
  using assms(1,2)
proof (induction sched arbitrary: s)
  case Nil
  then show ?case by simp
next
  case (Cons e es)
  then obtain t where t: "step qs cl e s = Some t" and r: "exec qs cl es t = Some s'"
    by (auto split: option.splits)
  from assms(3) [OF Cons.prems(2) t] have "P t" .
  from Cons.IH [OF r this] show ?case .
qed

lemma exec_append:
  "exec qs cl (es @ fs) s = (case exec qs cl es s of None \<Rightarrow> None | Some t \<Rightarrow> exec qs cl fs t)"
  by (induction es arbitrary: s) (auto split: option.splits)

lemma step_length:
  "step qs cl e s = Some s' \<Longrightarrow> length (status s') = length (status s)"
  by (cases e) (auto split: if_splits simp: Let_def)

lemma exec_length:
  "exec qs cl sched s = Some s' \<Longrightarrow> length (status s') = length (status s)"
  by (rule exec_invariant [where P = "\<lambda>t. length (status t) = length (status s)"])
     (auto dest: step_length)

lemma count_list_update_new:
  "i < length xs \<Longrightarrow> xs ! i \<noteq> a \<Longrightarrow> count_list (xs[i := a]) a = Suc (count_list xs a)"
proof (induction xs arbitrary: i)
  case Nil
  then show ?case by simp
next
  case (Cons x xs)
  then show ?case by (cases i) auto
qed

lemma count_list_update_old:
  "i < length xs \<Longrightarrow> xs ! i = a \<Longrightarrow> b \<noteq> a \<Longrightarrow> Suc (count_list (xs[i := b]) a) = count_list xs a"
proof (induction xs arbitrary: i)
  case Nil
  then show ?case by simp
next
  case (Cons x xs)
  then show ?case by (cases i) auto
qed

lemma step_semaphore:
  assumes "step qs cl e s = Some s'" and "sem_value s + in_flight s = limit"
  shows "sem_value s' + in_flight s' = limit"
proof (cases e)
  case (Acquire i)
  with assms(1) have g: "i < length (status s)" "status s ! i = Waiting" "0 < sem_value s"
    and s': "s' = s\<lparr>status := (status s)[i := Running], sem_value := sem_value s - 1,
                     invoked := invoked s @ [i]\<rparr>"
    by (auto split: if_splits)
  from g have "count_list ((status s)[i := Running]) Running = Suc (count_list (status s) Running)"
    by (intro count_list_update_new) auto
  with g assms(2) show ?thesis by (simp add: s' in_flight_def)
next
  case (Complete i)
  with assms(1) have g: "i < length (status s)" "status s ! i = Running"
    and st: "status s' = (status s)[i := Finished]" and sv: "sem_value s' = sem_value s + 1"
    by (auto split: if_splits simp: Let_def)
  from g have "Suc (count_list ((status s)[i := Finished]) Running) = count_list (status s) Running"
    by (intro count_list_update_old) auto
  with assms(2) show ?thesis by (simp add: st sv in_flight_def)
qed

lemma exec_semaphore:
  assumes "exec qs cl sched (init_state limit now qs) = Some s"
  shows "sem_value s + in_flight s = limit"
proof (rule exec_invariant [OF assms, where P = "\<lambda>t. sem_value t + in_flight t = limit"])
  show "sem_value (init_state limit now qs) + in_flight (init_state limit now qs) = limit"
    by (simp add: init_state_def in_flight_def count_list_0_iff)
qed (rule step_semaphore)

lemma process_question_success:
  assumes "gc_result (get_completion cl (q_question q) 3 2) = (Some m, Some a)"
    and "m \<noteq> []" and "a \<noteq> []"
  shows "process_question cl q (res, sm) =
    (res @ [\<lparr>r_id = q_id q, r_difficulty = q_difficulty q, r_question = q_question q,
               r_model_used = m, r_answer = a\<rparr>],
     sm\<lparr>model_usage := dict_set (model_usage sm) m (dict_get (model_usage sm) m 0 + 1)\<rparr>)"
  using assms by (simp add: process_question_def truthy_def)

lemma process_question_failure:
  assumes "gc_result (get_completion cl (q_question q) 3 2) = (mu, an)"
    and "\<not> (truthy mu \<and> truthy an)"
  shows "process_question cl q (res, sm) =
    (res, sm\<lparr>failed_questions := failed_questions sm @ [q_id q]\<rparr>)"
  using assms by (auto simp add: process_question_def)

lemma truthy_Some: "truthy v \<Longrightarrow> \<exists>x. v = Some x \<and> x \<noteq> []"
  by (cases v) (simp_all add: truthy_def)

lemma process_question_cases:
  obtains (answered) m a where "m \<noteq> []" and "a \<noteq> []"
      and "process_question cl q (res, sm) =
        (res @ [\<lparr>r_id = q_id q, r_difficulty = q_difficulty q, r_question = q_question q,
                   r_model_used = m, r_answer = a\<rparr>],
         sm\<lparr>model_usage := dict_set (model_usage sm) m (dict_get (model_usage sm) m 0 + 1)\<rparr>)"
  | (failed) "process_question cl q (res, sm) =
        (res, sm\<lparr>failed_questions := failed_questions sm @ [q_id q]\<rparr>)"
proof -
  obtain mu an where r: "gc_result (get_completion cl (q_question q) 3 2) = (mu, an)"
    by (cases "gc_result (get_completion cl (q_question q) 3 2)")
  show thesis
  proof (cases "truthy mu \<and> truthy an")
    case True
    then obtain m a where "mu = Some m" "m \<noteq> []" "an = Some a" "a \<noteq> []"
      using truthy_Some [of mu] truthy_Some [of an] by blast
    with r process_question_success [of cl q m a res sm] answered show thesis by simp
  next
    case False
    from process_question_failure [OF r False] failed show thesis by simp
  qed
qed

lemma process_question_ids:
  "mset (map r_id (fst (process_question cl q (res, sm)))) +
   mset (failed_questions (snd (process_question cl q (res, sm)))) =
   add_mset (q_id q) (mset (map r_id res) + mset (failed_questions sm))"
  by (rule process_question_cases [of cl q res sm]) simp_all

lemma process_question_static:
  "timestamp (snd (process_question cl q (res, sm))) = timestamp sm \<and>
   total_questions (snd (process_question cl q (res, sm))) = total_questions sm \<and>
   models_configured_for_routing (snd (process_question cl q (res, sm))) =
     models_configured_for_routing sm \<and>
   routing_insights (snd (process_question cl q (res, sm))) = routing_insights sm"
  by (rule process_question_cases [of cl q res sm]) simp_all

lemma filter_empty_model:
  "m \<notin> r_model_used ` set res \<Longrightarrow> filter (\<lambda>r. r_model_used r = m) res = []"
  by (induction res) auto

lemma process_question_usage:
  assumes "usage_counts res (model_usage sm)"
  shows "usage_counts (fst (process_question cl q (res, sm)))
           (model_usage (snd (process_question cl q (res, sm))))"
proof (rule process_question_cases [of cl q res sm])
  fix m a
  assume p: "process_question cl q (res, sm) =
        (res @ [\<lparr>r_id = q_id q, r_difficulty = q_difficulty q, r_question = q_question q,
                   r_model_used = m, r_answer = a\<rparr>],
         sm\<lparr>model_usage := dict_set (model_usage sm) m (dict_get (model_usage sm) m 0 + 1)\<rparr>)"
  from assms have d: "distinct (map fst (model_usage sm))"
    and c: "\<And>k. map_of (model_usage sm) k =
        (if k \<in> r_model_used ` set res
         then Some (length (filter (\<lambda>r. r_model_used r = k) res)) else None)"
    by (simp_all add: usage_counts_def)
  have g: "dict_get (model_usage sm) m 0 = length (filter (\<lambda>r. r_model_used r = m) res)"
    by (simp add: dict_get_def c filter_empty_model)
  show ?thesis
    unfolding p usage_counts_def
    by (auto simp add: dict_set_def distinct_update d update_conv' c g)
next
  assume "process_question cl q (res, sm) =
        (res, sm\<lparr>failed_questions := failed_questions sm @ [q_id q]\<rparr>)"
  with assms show ?thesis by simp
qed

subsection \<open>Invariants of the dispatcher: proofs\<close>

lemma indices_update_same:
  "i < length xs \<Longrightarrow> {j. j < length xs \<and> xs[i := a] ! j = a} = insert i {j. j < length xs \<and> xs ! j = a}"
  by (auto simp: nth_list_update)

lemma nth_update_eq_iff:
  "xs ! i \<noteq> a \<Longrightarrow> b \<noteq> a \<Longrightarrow> j < length xs \<Longrightarrow> xs[i := b] ! j = a \<longleftrightarrow> xs ! j = a"
  by (cases "i = j") simp_all

lemma indices_update_other:
  "xs ! i \<noteq> a \<Longrightarrow> b \<noteq> a \<Longrightarrow>
   {j. j < length xs \<and> xs[i := b] ! j = a} = {j. j < length xs \<and> xs ! j = a}"
  using nth_update_eq_iff [of xs i a b] by blast

lemma indices_neq_update_same:
  "xs ! i \<noteq> a \<Longrightarrow> b \<noteq> a \<Longrightarrow>
   {j. j < length xs \<and> xs[i := b] ! j \<noteq> a} = {j. j < length xs \<and> xs ! j \<noteq> a}"
  using nth_update_eq_iff [of xs i a b] by blast

lemma indices_replicate_other:
  "a \<noteq> b \<Longrightarrow> {i. i < n \<and> replicate n a ! i = b} = {}"
  by auto

lemma indices_replicate_same:
  "{i. i < n \<and> replicate n a ! i \<noteq> a} = {}"
  by auto

lemma indices_neq_update_new:
  "i < length xs \<Longrightarrow> b \<noteq> a \<Longrightarrow>
   {j. j < length xs \<and> xs[i := b] ! j \<noteq> a} = insert i {j. j < length xs \<and> xs ! j \<noteq> a}"
  by (auto simp: nth_list_update)

lemma step_ids:
  assumes "step qs cl e s = Some s'" and "ids_accounted qs s"
  shows "ids_accounted qs s'"
proof (cases e)
  case (Acquire i)
  with assms(1) have g: "status s ! i = Waiting"
    and s': "s' = s\<lparr>status := (status s)[i := Running], sem_value := sem_value s - 1,
                     invoked := invoked s @ [i]\<rparr>"
    by (auto split: if_splits)
  from g have "{j. j < length (status s) \<and> (status s)[i := Running] ! j = Finished} =
      {j. j < length (status s) \<and> status s ! j = Finished}"
    by (intro indices_update_other) simp_all
  with assms(2) show ?thesis by (simp add: s' ids_accounted_def)
next
  case (Complete i)
  with assms(1) have g: "i < length (status s)" "status s ! i = Running"
    and st: "status s' = (status s)[i := Finished]"
    and br: "benchmark_results s' =
      fst (process_question (cl i) (qs ! i) (benchmark_results s, summary_data s))"
    and sd: "summary_data s' =
      snd (process_question (cl i) (qs ! i) (benchmark_results s, summary_data s))"
    by (auto split: if_splits simp: Let_def)
  let ?F = "{j. j < length (status s) \<and> status s ! j = Finished}"
  have fin: "finite ?F" by simp
  from g have ni: "i \<notin> ?F" by simp
  from g have upd: "{j. j < length (status s) \<and> (status s)[i := Finished] ! j = Finished} = insert i ?F"
    by (intro indices_update_same) simp
  from assms(2) have len: "length (status s) = length qs"
    and acc: "mset (map r_id (benchmark_results s)) + mset (failed_questions (summary_data s)) =
       image_mset (\<lambda>i. q_id (qs ! i)) (mset_set ?F)"
    by (simp_all add: ids_accounted_def)
  have "mset (map r_id (benchmark_results s')) + mset (failed_questions (summary_data s')) =
      add_mset (q_id (qs ! i))
        (mset (map r_id (benchmark_results s)) + mset (failed_questions (summary_data s)))"
    unfolding br sd by (rule process_question_ids)
  also have "\<dots> = image_mset (\<lambda>i. q_id (qs ! i)) (mset_set (insert i ?F))"
    unfolding acc using fin ni by simp
  finally have key: "mset (map r_id (benchmark_results s')) + mset (failed_questions (summary_data s')) =
      image_mset (\<lambda>i. q_id (qs ! i))
        (mset_set {j. j < length (status s) \<and> (status s)[i := Finished] ! j = Finished})"
    unfolding upd .
  show ?thesis
    unfolding ids_accounted_def
  proof (intro conjI)
    show "length (status s') = length qs"
      unfolding st length_list_update by (rule len)
    show "mset (map r_id (benchmark_results s')) + mset (failed_questions (summary_data s')) =
      image_mset (\<lambda>i. q_id (qs ! i))
        (mset_set {i. i < length (status s') \<and> status s' ! i = Finished})"
      unfolding st length_list_update by (rule key)
  qed
qed

lemma init_ids: "ids_accounted qs (init_state limit now qs)"
  by (simp add: ids_accounted_def init_state_def indices_replicate_other)

lemma exec_ids:
  "exec qs cl sched (init_state limit now qs) = Some s \<Longrightarrow> ids_accounted qs s"
proof (erule exec_invariant [where P = "ids_accounted qs"])
  show "ids_accounted qs (init_state limit now qs)" by (rule init_ids)
qed (rule step_ids)

lemma all_finished_indices:
  "all_finished s \<Longrightarrow> {i. i < length (status s) \<and> status s ! i = Finished} = {0..<length (status s)}"
  by (auto simp: all_finished_def list_all_length)

lemma all_finished_not_waiting:
  "all_finished s \<Longrightarrow> {i. i < length (status s) \<and> status s ! i \<noteq> Waiting} = {0..<length (status s)}"
  by (auto simp: all_finished_def list_all_length)

lemma finished_ids_all:
  assumes "ids_accounted qs s" and "all_finished s"
  shows "mset (map r_id (benchmark_results s)) + mset (failed_questions (summary_data s)) =
         mset (map q_id qs)"
proof -
  from assms(1) have len: "length (status s) = length qs"
    and acc: "mset (map r_id (benchmark_results s)) + mset (failed_questions (summary_data s)) =
       image_mset (\<lambda>i. q_id (qs ! i))
         (mset_set {i. i < length (status s) \<and> status s ! i = Finished})"
    by (simp_all add: ids_accounted_def)
  have all: "{i. i < length (status s) \<and> status s ! i = Finished} = {0..<length qs}"
    using all_finished_indices [OF assms(2)] by (simp only: len)
  have "map (\<lambda>i. q_id (qs ! i)) [0..<length qs] = map q_id qs"
    by (rule nth_equalityI) simp_all
  then have "image_mset (\<lambda>i. q_id (qs ! i)) (mset_set {0..<length qs}) = mset (map q_id qs)"
    by (metis mset_map mset_upt)
  then show ?thesis
    unfolding acc all .
qed

lemma step_invoked:
  assumes "step qs cl e s = Some s'" and "invoked_once s"
  shows "invoked_once s'"
proof (cases e)
  case (Acquire i)
  with assms(1) have g: "i < length (status s)" "status s ! i = Waiting"
    and s': "s' = s\<lparr>status := (status s)[i := Running], sem_value := sem_value s - 1,
                     invoked := invoked s @ [i]\<rparr>"
    by (auto split: if_splits)
  let ?S = "{j. j < length (status s) \<and> status s ! j \<noteq> Waiting}"
  have fin: "finite ?S" by simp
  from g have ni: "i \<notin> ?S" by simp
  from g have "{j. j < length (status s) \<and> (status s)[i := Running] ! j \<noteq> Waiting} = insert i ?S"
    by (intro indices_neq_update_new) simp_all
  with fin ni assms(2) show ?thesis by (simp add: s' invoked_once_def)
next
  case (Complete i)
  with assms(1) have g: "status s ! i = Running"
    and st: "status s' = (status s)[i := Finished]" and iv: "invoked s' = invoked s"
    by (auto split: if_splits simp: Let_def)
  from g have "{j. j < length (status s) \<and> (status s)[i := Finished] ! j \<noteq> Waiting} =
      {j. j < length (status s) \<and> status s ! j \<noteq> Waiting}"
    by (intro indices_neq_update_same) simp_all
  with assms(2) show ?thesis by (simp add: invoked_once_def st iv)
qed

lemma exec_invoked:
  "exec qs cl sched (init_state limit now qs) = Some s \<Longrightarrow> invoked_once s"
proof (erule exec_invariant [where P = invoked_once])
  show "invoked_once (init_state limit now qs)"
    by (simp add: invoked_once_def init_state_def indices_replicate_same)
qed (rule step_invoked)

lemma step_usage:
  assumes "step qs cl e s = Some s'"
    and "usage_counts (benchmark_results s) (model_usage (summary_data s))"
  shows "usage_counts (benchmark_results s') (model_usage (summary_data s'))"
proof (cases e)
  case (Acquire i)
  with assms show ?thesis by (auto split: if_splits)
next
  case (Complete i)
  with assms(1) have
    br: "benchmark_results s' =
      fst (process_question (cl i) (qs ! i) (benchmark_results s, summary_data s))"
    and sd: "summary_data s' =
      snd (process_question (cl i) (qs ! i) (benchmark_results s, summary_data s))"
    by (auto split: if_splits simp: Let_def)
  from process_question_usage [OF assms(2)] show ?thesis by (simp add: br sd)
qed

lemma exec_usage:
  "exec qs cl sched (init_state limit now qs) = Some s \<Longrightarrow>
   usage_counts (benchmark_results s) (model_usage (summary_data s))"
proof (erule exec_invariant
        [where P = "\<lambda>t. usage_counts (benchmark_results t) (model_usage (summary_data t))"])
  show "usage_counts (benchmark_results (init_state limit now qs))
          (model_usage (summary_data (init_state limit now qs)))"
    by (simp add: usage_counts_def init_state_def)
qed (rule step_usage)

lemma step_static:
  assumes "step qs cl e s = Some s'" and "static_fields now qs (summary_data s)"
  shows "static_fields now qs (summary_data s')"
proof (cases e)
  case (Acquire i)
  with assms show ?thesis by (auto split: if_splits)
next
  case (Complete i)
  with assms(1) have
    sd: "summary_data s' =
      snd (process_question (cl i) (qs ! i) (benchmark_results s, summary_data s))"
    by (auto split: if_splits simp: Let_def)
  from assms(2) show ?thesis by (simp add: sd static_fields_def process_question_static)
qed

lemma exec_static:
  "exec qs cl sched (init_state limit now qs) = Some s \<Longrightarrow> static_fields now qs (summary_data s)"
proof (erule exec_invariant [where P = "\<lambda>t. static_fields now qs (summary_data t)"])
  show "static_fields now qs (summary_data (init_state limit now qs))"
    by (simp add: static_fields_def init_state_def)
qed (rule step_static)

lemma example_exec:
  "exec example_questions example_clients example_schedule
     (init_state CONCURRENT_REQUESTS ''2025-06-01T12:00:00'' example_questions) =
   Some \<lparr>status = [Finished, Finished, Finished],
         sem_value = 5,
         benchmark_results =
           [\<lparr>r_id = 3, r_difficulty = ''hard'', r_question = ''Why?'',
             r_model_used = ''m1'', r_answer = ''ok''\<rparr>,
            \<lparr>r_id = 1, r_difficulty = ''easy'', r_question = ''What is 2+2?'',
             r_model_used = ''m1'', r_answer = ''ok''\<rparr>],
         summary_data = summary example_report,
         invoked = [2, 0, 1],
         remote_calls = 5\<rparr>"
  by (simp add: example_schedule_def example_questions_def init_state_def CONCURRENT_REQUESTS_def
      example_report_def MODELS_FOR_ROUTING_def process_question_def get_completion_def
      py_range_3 example_clients_def truthy_def dict_get_def dict_set_def Let_def)

lemma example_run:
  "main (Some ''sk-key'') (Loaded example_questions) ''2025-06-01T12:00:00''
     example_clients example_schedule True =
   Some \<lparr>output_file = Some example_report, handler_calls = [2, 0, 1], remote_requests = 5\<rparr>"
  by (simp add: main_def truthy_def example_exec all_finished_def final_output_def
      example_report_def)

section \<open>The run and its report\<close>

lemma main_completed:
  assumes "main api_key file now clients schedule write_ok = Some eff"
    and "output_file eff = Some rep"
  obtains questions s where "file = Loaded questions"
    and "exec questions clients schedule (init_state CONCURRENT_REQUESTS now questions) = Some s"
    and "all_finished s" and "rep = final_output s" and "handler_calls eff = invoked s"
  using assms
  by (auto simp: main_def no_effects_def split: if_splits file_read.splits option.splits)

lemma main_loaded:
  assumes "main api_key (Loaded questions) now clients schedule write_ok = Some eff"
    and "truthy api_key"
  obtains s where
    "exec questions clients schedule (init_state CONCURRENT_REQUESTS now questions) = Some s"
    and "all_finished s" and "handler_calls eff = invoked s"
    and "remote_requests eff = remote_calls s"
  using assms
  by (auto simp: main_def split: if_splits option.splits)

text \<open>
  Every input has a completed run: on the sequential schedule each task in turn acquires
  the semaphore and completes, so \<open>main\<close> returns for every list of questions once the
  API key is set.
\<close>

lemma sequential_Suc: "sequential (Suc k) = sequential k @ [Acquire k, Complete k]"
  by (simp add: sequential_def)

lemma replicate_update_next:
  assumes "k < n"
  shows "(replicate k a @ replicate (n - k) b)[k := a] = replicate (Suc k) a @ replicate (n - Suc k) b"
proof -
  from assms obtain m where m: "n - k = Suc m" by (metis Suc_diff_Suc)
  then have "n - Suc k = m" by simp
  with m show ?thesis by (simp add: list_update_append replicate_app_Cons_same)
qed

lemma sequential_prefix:
  assumes "0 < limit" and "k \<le> length qs"
  shows "\<exists>s. exec qs cl (sequential k) (init_state limit now qs) = Some s \<and>
             status s = replicate k Finished @ replicate (length qs - k) Waiting \<and>
             sem_value s = limit"
  using assms(2)
proof (induction k)
  case 0
  then show ?case by (simp add: sequential_def init_state_def)
next
  case (Suc k)
  then obtain s where ex: "exec qs cl (sequential k) (init_state limit now qs) = Some s"
    and st: "status s = replicate k Finished @ replicate (length qs - k) Waiting"
    and sv: "sem_value s = limit"
    by auto
  from Suc.prems have k: "k < length qs" by simp
  have len: "length (status s) = length qs" using k by (simp add: st)
  have wait: "status s ! k = Waiting" using k by (simp add: st nth_append)
  obtain s1 where a: "step qs cl (Acquire k) s = Some s1"
    and st1: "status s1 = (status s)[k := Running]"
    and sv1: "sem_value s1 = sem_value s - 1"
    using k len wait sv assms(1) by simp
  obtain s2 where c: "step qs cl (Complete k) s1 = Some s2"
    and st2: "status s2 = (status s1)[k := Finished]"
    and sv2: "sem_value s2 = sem_value s1 + 1"
    using k len st1 by (simp add: Let_def)
  have "exec qs cl (sequential (Suc k)) (init_state limit now qs) = Some s2"
    by (simp add: sequential_Suc exec_append ex a c del: step.simps)
  moreover have "status s2 = (status s)[k := Finished]"
    by (simp add: st2 st1)
  then have "status s2 = replicate (Suc k) Finished @ replicate (length qs - Suc k) Waiting"
    unfolding st using k by (simp only: replicate_update_next)
  moreover have "sem_value s2 = limit" using sv2 sv1 sv assms(1) by simp
  ultimately show ?case by blast
qed

lemma main_sequential_completes:
  assumes "truthy api_key"
  shows "\<exists>eff. main api_key (Loaded questions) now clients (sequential (length questions)) write_ok =
           Some eff"
proof -
  have "0 < CONCURRENT_REQUESTS" by (simp add: CONCURRENT_REQUESTS_def)
  from sequential_prefix [OF this order_refl, of questions clients now]
  obtain s where
    ex: "exec questions clients (sequential (length questions))
           (init_state CONCURRENT_REQUESTS now questions) = Some s"
    and st: "status s = replicate (length questions) Finished"
    by auto
  from st have "all_finished s" by (simp add: all_finished_def list_all_length)
  with ex assms show ?thesis by (simp add: main_def)
qed

text \<open>
  C1. A completed run over questions with pairwise distinct ids: every id is in exactly one
  of the report's \<open>results\<close> and \<open>summary.failed_questions\<close>. The two lengths add up to
  \<open>total_questions\<close>, which is the number of questions; the two id sets are disjoint and
  their union is the set of input ids; no id occurs twice in either.
\<close>

theorem report_accounts_for_every_id:
  assumes "main api_key (Loaded questions) now clients schedule write_ok = Some eff"
    and "output_file eff = Some rep"
    and "distinct (map q_id questions)"
  shows "length (results rep) + length (failed_questions (summary rep)) =
           total_questions (summary rep) \<and>
         total_questions (summary rep) = length questions \<and>
         set (map r_id (results rep)) \<inter> set (failed_questions (summary rep)) = {} \<and>
         set (map r_id (results rep)) \<union> set (failed_questions (summary rep)) =
           set (map q_id questions) \<and>
         distinct (map r_id (results rep)) \<and> distinct (failed_questions (summary rep))"
proof -
  from assms(1,2) obtain s where
    ex: "exec questions clients schedule (init_state CONCURRENT_REQUESTS now questions) = Some s"
    and fin: "all_finished s" and rep: "rep = final_output s"
    by (rule main_completed) simp
  have "mset (map r_id (benchmark_results s)) + mset (failed_questions (summary_data s)) =
      mset (map q_id questions)"
    using exec_ids [OF ex] fin by (rule finished_ids_all)
  then have m: "mset (map r_id (results rep) @ failed_questions (summary rep)) =
      mset (map q_id questions)"
    by (simp add: rep final_output_def)
  from exec_static [OF ex] have tot: "total_questions (summary rep) = length questions"
    by (simp add: static_fields_def rep final_output_def)
  from m have "distinct (map r_id (results rep) @ failed_questions (summary rep))"
    using assms(3) mset_eq_imp_distinct_iff by blast
  moreover from m have "set (map r_id (results rep) @ failed_questions (summary rep)) =
      set (map q_id questions)"
    by (rule mset_eq_setD)
  moreover from m have "length (map r_id (results rep) @ failed_questions (summary rep)) =
      length (map q_id questions)"
    by (rule mset_eq_length)
  ultimately show ?thesis using tot by auto
qed

theorem report_accounts_for_every_id_witness:
  "distinct (map q_id example_questions) \<and>
   length (results example_report) + length (failed_questions (summary example_report)) = 3 \<and>
   set (map r_id (results example_report)) = {1, 3} \<and>
   set (failed_questions (summary example_report)) = {2} \<and>
   set (map r_id (results example_report)) \<union> set (failed_questions (summary example_report)) =
     set (map q_id example_questions)"
  using report_accounts_for_every_id [OF example_run, where rep = example_report]
  by (simp add: example_questions_def example_report_def)

text \<open>
  C5. In the written report of a completed run, \<open>results\<close> is sorted ascending by id,
  whatever schedule the tasks followed.
\<close>

theorem report_results_sorted:
  assumes "main api_key file now clients schedule write_ok = Some eff"
    and "output_file eff = Some rep"
  shows "sorted (map r_id (results rep))"
proof -
  from assms obtain s where "rep = final_output s"
    by (rule main_completed)
  then show ?thesis by (simp add: final_output_def)
qed

theorem report_results_sorted_witness:
  "map r_id (benchmark_results (the (exec example_questions example_clients example_schedule
     (init_state CONCURRENT_REQUESTS ''2025-06-01T12:00:00'' example_questions)))) = [3, 1] \<and>
   map r_id (results example_report) = [1, 3] \<and>
   sorted (map r_id (results example_report))"
  using report_results_sorted [OF example_run, where rep = example_report]
  by (simp add: example_exec example_report_def)

text \<open>
  C6. In the report of a completed run, \<open>summary.model_usage\<close> maps every model name to
  the number of entries of \<open>results\<close> with that \<open>model_used\<close>, and its keys are exactly
  the model names that occur in \<open>results\<close> (each key once).
\<close>

theorem report_model_usage_counts:
  assumes "main api_key file now clients schedule write_ok = Some eff"
    and "output_file eff = Some rep"
  shows "map_of (model_usage (summary rep)) m =
           (if m \<in> r_model_used ` set (results rep)
            then Some (length (filter (\<lambda>r. r_model_used r = m) (results rep))) else None) \<and>
         fst ` set (model_usage (summary rep)) = r_model_used ` set (results rep) \<and>
         distinct (map fst (model_usage (summary rep)))"
proof -
  from assms obtain questions s where
    ex: "exec questions clients schedule (init_state CONCURRENT_REQUESTS now questions) = Some s"
    and rep: "rep = final_output s"
    by (rule main_completed)
  let ?res = "benchmark_results s" and ?usage = "model_usage (summary_data s)"
  from exec_usage [OF ex] have d: "distinct (map fst ?usage)"
    and c: "\<And>k. map_of ?usage k =
        (if k \<in> r_model_used ` set ?res
         then Some (length (filter (\<lambda>r. r_model_used r = k) ?res)) else None)"
    by (simp_all add: usage_counts_def)
  have len: "\<And>k. length (filter (\<lambda>r. r_model_used r = k) (sort_key r_id ?res)) =
      length (filter (\<lambda>r. r_model_used r = k) ?res)"
    by (simp add: filter_sort)
  have "dom (map_of ?usage) = r_model_used ` set ?res"
    by (auto simp: c dom_def)
  then have keys: "fst ` set ?usage = r_model_used ` set ?res"
    by (simp add: dom_map_of_conv_image_fst)
  show ?thesis
    using d keys by (simp add: rep final_output_def c len)
qed

theorem report_model_usage_counts_witness:
  "map_of (model_usage (summary example_report)) ''m1'' = Some 2 \<and>
   length (filter (\<lambda>r. r_model_used r = ''m1'') (results example_report)) = 2 \<and>
   map_of (model_usage (summary example_report)) ''m2'' = None \<and>
   fst ` set (model_usage (summary example_report)) = {''m1''}"
  using report_model_usage_counts [OF example_run, of example_report "''m1''"]
    report_model_usage_counts [OF example_run, of example_report "''m2''"]
  by (simp add: example_report_def)


lemma mset_set_distinct:
  assumes m: "mset xs = mset_set S" and fin: "finite S"
  shows "distinct xs \<and> set xs = S"
proof -
  have st: "set xs = S"
    using assms by (metis finite_set_mset_mset_set set_mset_mset)
  have "count (mset xs) a = (if a \<in> set xs then 1 else 0)" for a
    unfolding st m using fin by (simp add: count_mset_set')
  then have "distinct xs"
    unfolding distinct_count_atmost_1 by blast
  then show ?thesis using st ..
qed

lemma invoked_distinct:
  assumes "invoked_once s"
  shows "distinct (invoked s) \<and> set (invoked s) \<subseteq> {0..<length (status s)}"
proof -
  have "mset (invoked s) = mset_set {i. i < length (status s) \<and> status s ! i \<noteq> Waiting}"
    using assms unfolding invoked_once_def .
  then have both: "distinct (invoked s) \<and>
      set (invoked s) = {i. i < length (status s) \<and> status s ! i \<noteq> Waiting}"
    by (rule mset_set_distinct) simp
  from both have d: "distinct (invoked s)" by (rule conjunct1)
  from both have st: "set (invoked s) = {i. i < length (status s) \<and> status s ! i \<noteq> Waiting}"
    by (rule conjunct2)
  have sub: "{i. i < length (status s) \<and> status s ! i \<noteq> Waiting} \<subseteq> {0..<length (status s)}"
    by auto
  from d sub show ?thesis unfolding st by (rule conjI)
qed

lemma invoked_all:
  assumes "invoked_once s" and "all_finished s"
  shows "mset (invoked s) = mset [0..<length (status s)]"
  using assms by (simp add: invoked_once_def all_finished_not_waiting)

subsection \<open>Progress of the dispatcher\<close>

lemma count_list_update_other:
  "xs ! i \<noteq> a \<Longrightarrow> b \<noteq> a \<Longrightarrow> count_list (xs[i := b]) a = count_list xs a"
proof (induction xs arbitrary: i)
  case Nil
  then show ?case by simp
next
  case (Cons x xs)
  then show ?case by (cases i) auto
qed

lemma step_remaining:
  assumes "step qs cl e s = Some s'"
  shows "Suc (remaining s') = remaining s"
proof (cases e)
  case (Acquire i)
  with assms have g: "i < length (status s)" "status s ! i = Waiting"
    and st: "status s' = (status s)[i := Running]"
    by (auto split: if_splits)
  from g have w: "Suc (count_list ((status s)[i := Running]) Waiting) = count_list (status s) Waiting"
    by (intro count_list_update_old) auto
  from g have r: "count_list ((status s)[i := Running]) Running = Suc (count_list (status s) Running)"
    by (intro count_list_update_new) auto
  from w r show ?thesis unfolding remaining_def st by linarith
next
  case (Complete i)
  with assms have g: "i < length (status s)" "status s ! i = Running"
    and st: "status s' = (status s)[i := Finished]"
    by (auto split: if_splits simp: Let_def)
  from g have r: "Suc (count_list ((status s)[i := Finished]) Running) = count_list (status s) Running"
    by (intro count_list_update_old) auto
  from g have w: "count_list ((status s)[i := Finished]) Waiting = count_list (status s) Waiting"
    by (intro count_list_update_other) auto
  from w r show ?thesis unfolding remaining_def st by linarith
qed

lemma step_enabled:
  assumes len: "length (status s) = length qs"
    and sem: "sem_value s + in_flight s = limit" and pos: "0 < limit"
    and nf: "\<not> all_finished s"
  shows "\<exists>e s'. step qs cl e s = Some s'"
proof (cases "Running \<in> set (status s)")
  case True
  then obtain j where j: "j < length (status s)" "status s ! j = Running"
    by (auto simp: in_set_conv_nth)
  with len have "\<exists>s'. step qs cl (Complete j) s = Some s'"
    by (simp add: Let_def)
  then show ?thesis by blast
next
  case False
  then have "in_flight s = 0" by (simp add: in_flight_def)
  with sem pos have free: "0 < sem_value s" by simp
  from nf obtain i where i: "i < length (status s)" "status s ! i \<noteq> Finished"
    by (auto simp: all_finished_def list_all_length)
  from i(1) False have "status s ! i \<noteq> Running" by (metis nth_mem)
  with i(2) have "status s ! i = Waiting" by (cases "status s ! i") simp_all
  with i(1) free have "\<exists>s'. step qs cl (Acquire i) s = Some s'" by simp
  then show ?thesis by blast
qed

lemma remaining_0_finished:
  assumes "remaining s = 0"
  shows "all_finished s"
proof -
  from assms have w: "Waiting \<notin> set (status s)" and r: "Running \<notin> set (status s)"
    by (simp_all add: remaining_def count_list_0_iff)
  have "t = Finished" if "t \<in> set (status s)" for t
    by (metis task_status.exhaust that w r)
  then show ?thesis by (simp add: all_finished_def list_all_iff)
qed

lemma run_completable:
  assumes "0 < limit"
  shows "remaining s = n \<Longrightarrow> length (status s) = length qs \<Longrightarrow>
         sem_value s + in_flight s = limit \<Longrightarrow>
         \<exists>rest s'. exec qs cl rest s = Some s' \<and> all_finished s'"
proof (induction n arbitrary: s)
  case 0
  then have "all_finished s" by (simp add: remaining_0_finished)
  then have "exec qs cl [] s = Some s \<and> all_finished s" by simp
  then show ?case by blast
next
  case (Suc n)
  show ?case
  proof (cases "all_finished s")
    case True
    then have "exec qs cl [] s = Some s \<and> all_finished s" by simp
    then show ?thesis by blast
  next
    case False
    from step_enabled [OF Suc.prems(2) Suc.prems(3) assms False]
    obtain e t where st: "step qs cl e s = Some t" by blast
    from step_remaining [OF st] Suc.prems(1) have "remaining t = n" by simp
    moreover from step_length [OF st] Suc.prems(2) have "length (status t) = length qs" by simp
    moreover from step_semaphore [OF st Suc.prems(3)]
    have "sem_value t + in_flight t = limit" .
    ultimately obtain rest s' where "exec qs cl rest t = Some s'" "all_finished s'"
      using Suc.IH by blast
    with st have "exec qs cl (e # rest) s = Some s' \<and> all_finished s'"
      by (simp del: step.simps)
    then show ?thesis by blast
  qed
qed

lemma all_finished_in_flight:
  assumes "all_finished s"
  shows "in_flight s = 0"
proof -
  from assms have "Running \<notin> set (status s)"
    by (auto simp: all_finished_def list_all_iff)
  then show ?thesis by (simp add: in_flight_def)
qed

lemma main_awaits_all:
  assumes "truthy api_key"
    and "main api_key (Loaded questions) now clients schedule write_ok = Some eff"
  shows "\<exists>s. exec questions clients schedule (init_state CONCURRENT_REQUESTS now questions) = Some s \<and>
             all_finished s \<and> in_flight s = 0 \<and>
             handler_calls eff = invoked s \<and>
             output_file eff = (if write_ok then Some (final_output s) else None)"
proof -
  from assms obtain s where
    ex: "exec questions clients schedule (init_state CONCURRENT_REQUESTS now questions) = Some s"
    and fin: "all_finished s"
    and eff: "eff = \<lparr>output_file = (if write_ok then Some (final_output s) else None),
                      handler_calls = invoked s, remote_requests = remote_calls s\<rparr>"
    by (auto simp: main_def split: if_splits option.splits)
  from fin have "in_flight s = 0" by (rule all_finished_in_flight)
  with ex fin eff show ?thesis by simp
qed


lemma finished_all_recorded:
  assumes "exec qs cl sched (init_state limit now qs) = Some s" and "all_finished s"
  shows "length (benchmark_results s) + length (failed_questions (summary_data s)) = length qs"
proof -
  have "mset (map r_id (benchmark_results s) @ failed_questions (summary_data s)) =
      mset (map q_id qs)"
    using finished_ids_all [OF exec_ids [OF assms(1)] assms(2)] by simp
  then have "length (map r_id (benchmark_results s) @ failed_questions (summary_data s)) =
      length (map q_id qs)"
    by (rule mset_eq_length)
  then show ?thesis by simp
qed

lemma example_exec_prefix:
  "exec example_questions example_clients [Acquire 2, Acquire 0]
     (init_state CONCURRENT_REQUESTS ''2025-06-01T12:00:00'' example_questions) =
   Some ((init_state CONCURRENT_REQUESTS ''2025-06-01T12:00:00'' example_questions)
          \<lparr>status := [Running, Waiting, Running], sem_value := 3, invoked := [2, 0]\<rparr>)"
  by (simp add: example_questions_def init_state_def CONCURRENT_REQUESTS_def)

text \<open>
  C7. In every state the dispatcher can reach, the number of tasks inside
  \<open>process_question\<close> is at most \<open>CONCURRENT_REQUESTS\<close> (5): it is the difference
  between that constant and the semaphore's value. The tasks that have called
  \<open>process_question\<close> are exactly those no longer waiting, each once. The dispatcher
  never stalls: a state with an unfinished task has an enabled step, and every reachable
  state can be run to the end. When \<open>main\<close> assembles the report, the schedule has brought
  every task to its end: none is in flight, every question is recorded, the report is
  built from that state, and every task has called \<open>process_question\<close> exactly once.
  Such a run exists for every list of questions.
\<close>

theorem dispatcher_concurrency_bound:
  "(exec questions clients schedule (init_state CONCURRENT_REQUESTS now questions) = Some s \<longrightarrow>
      in_flight s \<le> CONCURRENT_REQUESTS \<and> in_flight s \<le> 5 \<and>
      sem_value s + in_flight s = CONCURRENT_REQUESTS \<and>
      distinct (invoked s) \<and> set (invoked s) \<subseteq> {0..<length questions} \<and>
      set (invoked s) = {i. i < length questions \<and> status s ! i \<noteq> Waiting} \<and>
      (\<not> all_finished s \<longrightarrow> (\<exists>e s'. step questions clients e s = Some s')) \<and>
      (\<exists>rest s'. exec questions clients rest s = Some s' \<and> all_finished s')) \<and>
   (truthy api_key \<and>
    main api_key (Loaded questions) now clients schedule write_ok = Some eff \<longrightarrow>
      (\<exists>t. exec questions clients schedule (init_state CONCURRENT_REQUESTS now questions) = Some t \<and>
           all_finished t \<and> in_flight t = 0 \<and>
           length (benchmark_results t) + length (failed_questions (summary_data t)) =
             length questions \<and>
           handler_calls eff = invoked t \<and>
           output_file eff = (if write_ok then Some (final_output t) else None)) \<and>
      mset (handler_calls eff) = mset [0..<length questions]) \<and>
   (truthy api_key \<longrightarrow>
      (\<exists>complete eff'.
         main api_key (Loaded questions) now clients complete write_ok = Some eff'))"
proof -
  have pos: "0 < CONCURRENT_REQUESTS" by (simp add: CONCURRENT_REQUESTS_def)
  have reach: "exec questions clients schedule (init_state CONCURRENT_REQUESTS now questions) = Some s \<longrightarrow>
      in_flight s \<le> CONCURRENT_REQUESTS \<and> in_flight s \<le> 5 \<and>
      sem_value s + in_flight s = CONCURRENT_REQUESTS \<and>
      distinct (invoked s) \<and> set (invoked s) \<subseteq> {0..<length questions} \<and>
      set (invoked s) = {i. i < length questions \<and> status s ! i \<noteq> Waiting} \<and>
      (\<not> all_finished s \<longrightarrow> (\<exists>e s'. step questions clients e s = Some s')) \<and>
      (\<exists>rest s'. exec questions clients rest s = Some s' \<and> all_finished s')"
  proof (intro impI conjI)
    assume ex: "exec questions clients schedule (init_state CONCURRENT_REQUESTS now questions) = Some s"
    from exec_semaphore [OF ex] show sem: "sem_value s + in_flight s = CONCURRENT_REQUESTS" .
    then show b: "in_flight s \<le> CONCURRENT_REQUESTS" by simp
    then show "in_flight s \<le> 5" by (simp add: CONCURRENT_REQUESTS_def)
    from exec_length [OF ex] have len: "length (status s) = length questions"
      by (simp add: init_state_def)
    from invoked_distinct [OF exec_invoked [OF ex]] len
    show "distinct (invoked s)" and "set (invoked s) \<subseteq> {0..<length questions}" by simp_all
    have "mset (invoked s) = mset_set {i. i < length (status s) \<and> status s ! i \<noteq> Waiting}"
      using exec_invoked [OF ex] unfolding invoked_once_def .
    then have "distinct (invoked s) \<and>
        set (invoked s) = {i. i < length (status s) \<and> status s ! i \<noteq> Waiting}"
      by (rule mset_set_distinct) simp
    then show "set (invoked s) = {i. i < length questions \<and> status s ! i \<noteq> Waiting}"
      unfolding len by (rule conjunct2)
    show "\<exists>e s'. step questions clients e s = Some s'" if "\<not> all_finished s"
      using len sem pos that by (rule step_enabled)
    show "\<exists>rest s'. exec questions clients rest s = Some s' \<and> all_finished s'"
      using pos refl len sem by (rule run_completable)
  qed
  have awaited: "truthy api_key \<and>
    main api_key (Loaded questions) now clients schedule write_ok = Some eff \<longrightarrow>
      (\<exists>t. exec questions clients schedule (init_state CONCURRENT_REQUESTS now questions) = Some t \<and>
           all_finished t \<and> in_flight t = 0 \<and>
           length (benchmark_results t) + length (failed_questions (summary_data t)) =
             length questions \<and>
           handler_calls eff = invoked t \<and>
           output_file eff = (if write_ok then Some (final_output t) else None)) \<and>
      mset (handler_calls eff) = mset [0..<length questions]"
  proof (intro impI)
    assume a: "truthy api_key \<and>
      main api_key (Loaded questions) now clients schedule write_ok = Some eff"
    from main_awaits_all [OF conjunct1 [OF a] conjunct2 [OF a]] obtain t where
      ex: "exec questions clients schedule (init_state CONCURRENT_REQUESTS now questions) = Some t"
      and fin: "all_finished t" and idle: "in_flight t = 0"
      and hc: "handler_calls eff = invoked t"
      and out: "output_file eff = (if write_ok then Some (final_output t) else None)"
      by blast
    from exec_length [OF ex] have len: "length (status t) = length questions"
      by (simp add: init_state_def)
    have rec: "length (benchmark_results t) + length (failed_questions (summary_data t)) =
        length questions"
      using ex fin by (rule finished_all_recorded)
    have perm: "mset (handler_calls eff) = mset [0..<length questions]"
      using invoked_all [OF exec_invoked [OF ex] fin] by (simp only: hc len)
    from ex fin idle rec hc out have
      "\<exists>t. exec questions clients schedule (init_state CONCURRENT_REQUESTS now questions) = Some t \<and>
           all_finished t \<and> in_flight t = 0 \<and>
           length (benchmark_results t) + length (failed_questions (summary_data t)) =
             length questions \<and>
           handler_calls eff = invoked t \<and>
           output_file eff = (if write_ok then Some (final_output t) else None)"
      by (intro exI [of _ t] conjI)
    then show "(\<exists>t. exec questions clients schedule (init_state CONCURRENT_REQUESTS now questions) = Some t \<and>
           all_finished t \<and> in_flight t = 0 \<and>
           length (benchmark_results t) + length (failed_questions (summary_data t)) =
             length questions \<and>
           handler_calls eff = invoked t \<and>
           output_file eff = (if write_ok then Some (final_output t) else None)) \<and>
      mset (handler_calls eff) = mset [0..<length questions]"
      using perm by (rule conjI)
  qed
  have runs: "truthy api_key \<longrightarrow>
      (\<exists>complete eff'.
         main api_key (Loaded questions) now clients complete write_ok = Some eff')"
    using main_sequential_completes by blast
  from reach awaited runs show ?thesis by (intro conjI)
qed

theorem dispatcher_concurrency_bound_witness:
  "in_flight ((init_state CONCURRENT_REQUESTS ''2025-06-01T12:00:00'' example_questions)
      \<lparr>status := [Running, Waiting, Running], sem_value := 3, invoked := [2, 0]\<rparr>) = 2 \<and>
   (2::nat) \<le> CONCURRENT_REQUESTS \<and>
   main (Some ''sk-key'') (Loaded example_questions) ''2025-06-01T12:00:00''
     example_clients [Acquire 2, Acquire 0] True = None \<and>
   truthy (Some ''sk-key'') \<and>
   all_finished (the (exec example_questions example_clients example_schedule
     (init_state CONCURRENT_REQUESTS ''2025-06-01T12:00:00'' example_questions))) \<and>
   mset [2, 0, 1] = mset [0..<length example_questions]"
proof -
  let ?init = "init_state CONCURRENT_REQUESTS ''2025-06-01T12:00:00'' example_questions"
  let ?s = "?init\<lparr>status := [Running, Waiting, Running], sem_value := 3, invoked := [2, 0]\<rparr>"
  let ?eff = "\<lparr>output_file = Some example_report, handler_calls = [2, 0, 1],
      remote_requests = 5\<rparr>"
  have two: "in_flight ?s = 2" by (simp add: in_flight_def)
  have key: "truthy (Some ''sk-key'')" by (simp add: truthy_def)
  have early: "main (Some ''sk-key'') (Loaded example_questions) ''2025-06-01T12:00:00''
     example_clients [Acquire 2, Acquire 0] True = None"
    by (simp add: main_def key example_exec_prefix all_finished_def del: exec.simps)
  from dispatcher_concurrency_bound
    [where questions = example_questions and clients = example_clients
       and schedule = "[Acquire 2, Acquire 0]" and now = "''2025-06-01T12:00:00''" and s = ?s,
     THEN conjunct1, THEN mp, OF example_exec_prefix]
  have "in_flight ?s \<le> CONCURRENT_REQUESTS" by (rule conjunct1)
  with two have bound: "(2::nat) \<le> CONCURRENT_REQUESTS" by simp
  note awaited = dispatcher_concurrency_bound
    [where questions = example_questions and clients = example_clients
       and schedule = example_schedule and now = "''2025-06-01T12:00:00''"
       and api_key = "Some ''sk-key''" and write_ok = True and eff = ?eff,
     THEN conjunct2, THEN conjunct1, THEN mp, OF conjI [OF key example_run]]
  from awaited [THEN conjunct1] obtain t where
    "exec example_questions example_clients example_schedule ?init = Some t" and "all_finished t"
    by blast
  then have fin: "all_finished (the (exec example_questions example_clients example_schedule ?init))"
    by simp
  from awaited [THEN conjunct2]
  have perm: "mset [2, 0, 1] = mset [0..<length example_questions]" by simp
  show ?thesis by (intro conjI) (fact two bound early key fin perm)+
qed

text \<open>
  C8. If the API key is absent from the environment, or the question file is missing, or
  it is not valid JSON, \<open>main\<close> returns at once: no task is dispatched, no request is
  sent, no output file is written.
\<close>

theorem main_preflight_abort:
  assumes "api_key = None \<or> file = FileNotFoundError \<or> file = JSONDecodeError"
  shows "main api_key file now clients schedule write_ok =
           Some \<lparr>output_file = None, handler_calls = [], remote_requests = 0\<rparr>"
  using assms
  by (auto simp: main_def no_effects_def truthy_def)

theorem main_preflight_abort_witness:
  "main None (Loaded example_questions) ''2025-06-01T12:00:00'' example_clients example_schedule True =
     Some \<lparr>output_file = None, handler_calls = [], remote_requests = 0\<rparr> \<and>
   main (Some ''sk-key'') FileNotFoundError ''2025-06-01T12:00:00'' example_clients example_schedule True =
     Some \<lparr>output_file = None, handler_calls = [], remote_requests = 0\<rparr> \<and>
   main (Some ''sk-key'') JSONDecodeError ''2025-06-01T12:00:00'' example_clients example_schedule True =
     Some \<lparr>output_file = None, handler_calls = [], remote_requests = 0\<rparr>"
  using main_preflight_abort [of None "Loaded example_questions"]
    main_preflight_abort [of "Some ''sk-key''" FileNotFoundError]
    main_preflight_abort [of "Some ''sk-key''" JSONDecodeError]
  by simp

lemma member_distinguishes: "x \<in> A \<Longrightarrow> x \<notin> B \<Longrightarrow> A \<noteq> B"
  by blast

text \<open>
  C9, as stated, fails: the summary written by the sample run has a sixth key,
  \<open>routing_insights\<close>.
\<close>

theorem summary_five_fields_counterexample:
  "main (Some ''sk-key'') (Loaded example_questions) ''2025-06-01T12:00:00''
     example_clients example_schedule True =
   Some \<lparr>output_file = Some example_report, handler_calls = [2, 0, 1], remote_requests = 5\<rparr> \<and>
   set (map fst (summary_json (summary example_report))) \<noteq>
     {''timestamp'', ''total_questions'', ''models_configured_for_routing'', ''model_usage'',
      ''failed_questions''}"
proof (rule conjI)
  have a: "''routing_insights'' \<in> set (map fst (summary_json (summary example_report)))"
    by (simp add: summary_json_def)
  have b: "''routing_insights'' \<notin>
     {''timestamp'', ''total_questions'', ''models_configured_for_routing'', ''model_usage'',
      ''failed_questions''}"
    by simp
  from a b show "set (map fst (summary_json (summary example_report))) \<noteq>
     {''timestamp'', ''total_questions'', ''models_configured_for_routing'', ''model_usage'',
      ''failed_questions''}"
    by (rule member_distinguishes)
qed (rule example_run)

text \<open>
  C9, amended. The summary of every written report has exactly six keys, in this order:
  \<open>timestamp\<close>, \<open>total_questions\<close>, \<open>models_configured_for_routing\<close>, \<open>model_usage\<close>,
  \<open>failed_questions\<close> and \<open>routing_insights\<close>; the last holds the fixed explanatory text
  of \<open>main\<close>, and the timestamp and configured models are those set at the start.
\<close>

theorem summary_six_fields:
  assumes "main api_key file now clients schedule write_ok = Some eff"
    and "output_file eff = Some rep"
  shows "map fst (summary_json (summary rep)) =
           [''timestamp'', ''total_questions'', ''models_configured_for_routing'',
            ''model_usage'', ''failed_questions'', ''routing_insights''] \<and>
         timestamp (summary rep) = now \<and>
         models_configured_for_routing (summary rep) = MODELS_FOR_ROUTING \<and>
         routing_insights (summary rep) = ROUTING_INSIGHTS"
proof -
  from assms obtain questions s where
    ex: "exec questions clients schedule (init_state CONCURRENT_REQUESTS now questions) = Some s"
    and rep: "rep = final_output s"
    by (rule main_completed)
  from exec_static [OF ex] show ?thesis
    by (simp add: static_fields_def rep final_output_def summary_json_def)
qed

theorem summary_six_fields_witness:
  "map fst (summary_json (summary example_report)) =
     [''timestamp'', ''total_questions'', ''models_configured_for_routing'',
      ''model_usage'', ''failed_questions'', ''routing_insights''] \<and>
   routing_insights (summary example_report) = ROUTING_INSIGHTS"
  using summary_six_fields [OF example_run, where rep = example_report]
  by (simp add: example_report_def MODELS_FOR_ROUTING_def)

text \<open>
  C10. If \<open>get_completion\<close> returns an empty answer text or an empty model name,
  \<open>process_question\<close> records the question as failed: its id is appended to
  \<open>failed_questions\<close> and \<open>results\<close> is left as it was.
\<close>

theorem process_question_empty_is_failure:
  assumes "gc_result (get_completion client (q_question question_data) 3 2) = (model_used, answer)"
    and "answer = Some [] \<or> model_used = Some []"
  shows "process_question client question_data (res, sm) =
           (res, sm\<lparr>failed_questions := failed_questions sm @ [q_id question_data]\<rparr>)"
proof (rule process_question_failure [OF assms(1)])
  from assms(2) show "\<not> (truthy model_used \<and> truthy answer)"
    by (auto simp: truthy_def)
qed

theorem process_question_empty_is_failure_witness:
  "gc_result (get_completion (\<lambda>t p a. Completion \<lparr>model = ''m1'', choices = [Some []]\<rparr>)
      ''Why?'' 3 2) = (Some ''m1'', Some []) \<and>
   process_question (\<lambda>t p a. Completion \<lparr>model = ''m1'', choices = [Some []]\<rparr>)
      \<lparr>q_id = 3, q_difficulty = ''hard'', q_question = ''Why?''\<rparr>
      ([], summary example_report) =
     ([], (summary example_report)\<lparr>failed_questions := [2, 3]\<rparr>)"
proof -
  have r: "gc_result (get_completion (\<lambda>t p a. Completion \<lparr>model = ''m1'', choices = [Some []]\<rparr>)
      (q_question \<lparr>q_id = 3, q_difficulty = ''hard'', q_question = ''Why?''\<rparr>) 3 2) =
      (Some ''m1'', Some [])"
    by (simp add: get_completion_def py_range_3)
  from process_question_empty_is_failure [OF r, of "[]" "summary example_report"] r
  show ?thesis by (simp add: example_report_def)
qed

end
